theory Spec2Isabelle
  imports Main "HOL-Library.Sublist"
begin

section \<open>Python values used by csvreplace.py\<close>

text \<open>
  A Python 3 \<open>str\<close> is a sequence of Unicode code points, and \<open>len\<close> counts code
  points. A text is therefore a list of code points, each a natural number; \<open>str\<close> turns
  an ASCII literal into such a text.
\<close>

type_synonym pystr = "nat list"

definition str :: "string \<Rightarrow> pystr" where
  "str cs = map of_char cs"

text \<open>
  \<open>str.isspace\<close> on one code point: the ASCII whitespace table of CPython
  (TAB..CR, FS..US, SPACE) and the code points with the Unicode White_Space property or
  bidirectional class WS, B or S.
\<close>

definition isspace :: "nat \<Rightarrow> bool" where
  "isspace c \<longleftrightarrow>
     (9 \<le> c \<and> c \<le> 13) \<or> (28 \<le> c \<and> c \<le> 32) \<or> c = 133 \<or> c = 160 \<or> c = 5760 \<or>
     (8192 \<le> c \<and> c \<le> 8202) \<or> c = 8232 \<or> c = 8233 \<or> c = 8239 \<or> c = 8287 \<or> c = 12288"

text \<open>\<open>s.strip()\<close>: leading and trailing whitespace removed.\<close>

definition py_strip :: "pystr \<Rightarrow> pystr" where
  "py_strip s = rev (dropWhile isspace (rev (dropWhile isspace s)))"

text \<open>
  \<open>s.replace(old, new)\<close> for a non-empty \<open>old\<close>: the text is scanned from the left; at
  an occurrence of \<open>old\<close> the replacement is emitted and the scan resumes behind the
  occurrence, otherwise one code point is copied.
\<close>

function py_replace_scan :: "'a list \<Rightarrow> 'a list \<Rightarrow> 'a list \<Rightarrow> 'a list" where
  "py_replace_scan old new [] = []"
| "py_replace_scan old new (c # s) =
     (if old \<noteq> [] \<and> prefix old (c # s)
      then new @ py_replace_scan old new (drop (length old) (c # s))
      else c # py_replace_scan old new s)"
  by pat_completeness auto
termination
  by (relation "measure (\<lambda>(old, new, s). length s)") auto

text \<open>
  \<open>s.replace(old, new)\<close>. For the empty \<open>old\<close> Python inserts \<open>new\<close> before every code
  point and at the end.
\<close>

definition py_replace :: "'a list \<Rightarrow> 'a list \<Rightarrow> 'a list \<Rightarrow> 'a list" where
  "py_replace old new s =
     (if old = [] then new @ concat (map (\<lambda>c. c # new) s) else py_replace_scan old new s)"

text \<open>The exceptions that the modelled operations can raise.\<close>

datatype error = StopIteration | IndexError | FileNotFoundError | OtherException

text \<open>\<open>next(reader)\<close> on the rows that are left.\<close>

definition py_next :: "'a list \<Rightarrow> error + ('a \<times> 'a list)" where
  "py_next reader = (case reader of [] \<Rightarrow> Inl StopIteration | x # rest \<Rightarrow> Inr (x, rest))"

text \<open>\<open>row[i]\<close> for a non-negative index.\<close>

definition py_index :: "'a list \<Rightarrow> nat \<Rightarrow> error + 'a" where
  "py_index xs i = (if i < length xs then Inr (xs ! i) else Inl IndexError)"

section \<open>The function find_replace_from_csv\<close>

text \<open>Every line the function prints, with the values it interpolates.\<close>

datatype message =
    HeaderSkipped
  | WarnEmptyAfterHeader
  | WarnEmptyFind nat
  | WarnInsufficientColumns nat "pystr list"
  | ErrCsvNotFound
  | ErrCsvRead
  | NoValidPairs
  | CopiedInput
  | ErrInputNotFoundOnCopy
  | ErrNoReplacements
  | ErrInputNotFound
  | ErrInputRead
  | Performing nat
  | Replaced pystr pystr
  | Success
  | ErrWrite

text \<open>The printed lines that start with \<open>Warning:\<close>, and the row number one names.\<close>

fun is_warning :: "message \<Rightarrow> bool" where
  "is_warning WarnEmptyAfterHeader = True"
| "is_warning (WarnEmptyFind n) = True"
| "is_warning (WarnInsufficientColumns n row) = True"
| "is_warning m = False"

fun warned_row :: "message \<Rightarrow> nat option" where
  "warned_row (WarnEmptyFind n) = Some n"
| "warned_row (WarnInsufficientColumns n row) = Some n"
| "warned_row m = None"

type_synonym row = "pystr list"
type_synonym pair = "pystr \<times> pystr"
type_synonym loaded = "pair list \<times> message list"

subsection \<open>Loading the pairs (lines 20 to 39)\<close>

text \<open>
  Lines 20 to 26. The reader is the list of rows not yet consumed. \<open>StopIteration\<close> is
  caught, any other exception leaves the block.
\<close>

definition skip_header :: "bool \<Rightarrow> row list \<Rightarrow> error + (row list \<times> message list)" where
  "skip_header has_header reader =
     (if has_header then
        (case py_next reader of
           Inr (header, rest) \<Rightarrow> Inr (rest, [HeaderSkipped])
         | Inl e \<Rightarrow> if e = StopIteration then Inr (reader, [WarnEmptyAfterHeader]) else Inl e)
      else Inr (reader, []))"

definition row_number :: "bool \<Rightarrow> nat \<Rightarrow> nat" where
  "row_number has_header i = (if has_header then i + 2 else i + 1)"

text \<open>The body of the loop of line 27, on the list built so far and the lines printed so far.\<close>

definition process_row :: "bool \<Rightarrow> nat \<Rightarrow> row \<Rightarrow> loaded \<Rightarrow> error + loaded" where
  "process_row has_header i row st =
     (case st of (replacements, out) \<Rightarrow>
        if length row \<ge> 2 then
          (case py_index row 0 of Inl e \<Rightarrow> Inl e | Inr field0 \<Rightarrow>
           case py_index row 1 of Inl e \<Rightarrow> Inl e | Inr field1 \<Rightarrow>
             let find_text = py_strip field0; replace_text = py_strip field1 in
             if find_text = []
             then Inr (replacements, out @ [WarnEmptyFind (row_number has_header i)])
             else Inr (replacements @ [(find_text, replace_text)], out))
        else Inr (replacements, out @ [WarnInsufficientColumns (row_number has_header i) row]))"

text \<open>\<open>for i, row in enumerate(reader)\<close>, from index \<open>i\<close> on.\<close>

fun read_rows :: "bool \<Rightarrow> nat \<Rightarrow> row list \<Rightarrow> loaded \<Rightarrow> error + loaded" where
  "read_rows has_header i [] st = Inr st"
| "read_rows has_header i (row # rows) st =
     (case process_row has_header i row st of
        Inl e \<Rightarrow> Inl e
      | Inr st' \<Rightarrow> read_rows has_header (Suc i) rows st')"

definition load_pairs :: "bool \<Rightarrow> row list \<Rightarrow> error + loaded" where
  "load_pairs has_header reader =
     (case skip_header has_header reader of
        Inl e \<Rightarrow> Inl e
      | Inr (rest, out) \<Rightarrow> read_rows has_header 0 rest ([], out))"

subsection \<open>Applying the pairs (lines 77 to 83)\<close>

fun perform_replacements :: "pystr \<Rightarrow> pair list \<Rightarrow> message list \<Rightarrow> pystr \<times> message list" where
  "perform_replacements content [] out = (content, out)"
| "perform_replacements content ((find_text, replace_text) # rest) out =
     (let original_content_len = length content;
          content' = py_replace find_text replace_text content
      in perform_replacements content' rest
           (if length content' \<noteq> original_content_len
            then out @ [Replaced find_text replace_text] else out))"

subsection \<open>The whole function\<close>

text \<open>
  The files are given by what opening and reading them yields: the rows of the CSV file
  or the exception raised, the text of the input file or the exception raised, and the
  exception that writing the output file raises, if any. The result is the returned
  truth value, the text written to the output file, and the lines printed.

  Lines 47 to 92, on the loaded list and the lines printed so far.
\<close>

definition transform_phase ::
  "pair list \<Rightarrow> message list \<Rightarrow> error + pystr \<Rightarrow> error option \<Rightarrow> bool \<times> pystr option \<times> message list"
where
  "transform_phase replacements out input_file output_error =
     (if replacements = [] then
        (case input_file of
           Inl e \<Rightarrow>
             (False, None,
              out @ [NoValidPairs,
                     if e = FileNotFoundError then ErrInputNotFoundOnCopy else ErrNoReplacements])
         | Inr content \<Rightarrow>
             (case output_error of
                Some e \<Rightarrow>
                  (False, None,
                   out @ [NoValidPairs,
                          if e = FileNotFoundError then ErrInputNotFoundOnCopy
                          else ErrNoReplacements])
              | None \<Rightarrow> (True, Some content, out @ [NoValidPairs, CopiedInput])))
      else
        (case input_file of
           Inl e \<Rightarrow>
             (False, None, out @ [if e = FileNotFoundError then ErrInputNotFound else ErrInputRead])
         | Inr content \<Rightarrow>
             (case perform_replacements content replacements
                     (out @ [Performing (length replacements)]) of
                (content', out') \<Rightarrow>
                  (case output_error of
                     Some e \<Rightarrow> (False, None, out' @ [ErrWrite])
                   | None \<Rightarrow> (True, Some content', out' @ [Success])))))"

text \<open>
  Lines 16 to 92. An exception of the first block is caught at lines 40 to 45; the lines
  printed before it are not kept, and \<open>load_pairs\<close> raises none on rows held in memory.
\<close>

definition find_replace_from_csv ::
  "error + row list \<Rightarrow> error + pystr \<Rightarrow> error option \<Rightarrow> bool \<Rightarrow> bool \<times> pystr option \<times> message list"
where
  "find_replace_from_csv csv_file input_file output_error has_header =
     (case (case csv_file of Inl e \<Rightarrow> Inl e | Inr reader \<Rightarrow> load_pairs has_header reader) of
        Inl e \<Rightarrow> (False, None, [if e = FileNotFoundError then ErrCsvNotFound else ErrCsvRead])
      | Inr (replacements, out) \<Rightarrow> transform_phase replacements out input_file output_error)"

text \<open>
  The two entry points of the specification, read off the function: the loader is
  lines 20 to 39 on rows held in memory, the transformer gives the text that lines 47
  to 87 write for a source text and a loaded list.
\<close>

definition loadReplacementPairs :: "row list \<Rightarrow> bool \<Rightarrow> error + loaded" where
  "loadReplacementPairs rawRecords skipHeader = load_pairs skipHeader rawRecords"

definition applyReplacements :: "pystr \<Rightarrow> pair list \<Rightarrow> pystr" where
  "applyReplacements sourceText pairs =
     (if pairs = [] then sourceText else fst (perform_replacements sourceText pairs []))"

text \<open>The text written by a run, if any.\<close>

definition written :: "bool \<times> pystr option \<times> message list \<Rightarrow> pystr option" where
  "written res = fst (snd res)"

subsection \<open>The loader of the specification, row by row\<close>

text \<open>
  The words of section 4.1 of the specification: a row is accepted when it has two
  fields and its first field is not empty after trimming; an accepted row is stored as
  its two trimmed fields; any other row leaves a warning with its position.
\<close>

fun well_formed :: "row \<Rightarrow> bool" where
  "well_formed (field0 # field1 # extra) = (py_strip field0 \<noteq> [])"
| "well_formed short = False"

definition stored_pair :: "row \<Rightarrow> pair" where
  "stored_pair row = (py_strip (row ! 0), py_strip (row ! 1))"

definition skip_warning :: "nat \<Rightarrow> row \<Rightarrow> message" where
  "skip_warning n row = (if length row < 2 then WarnInsufficientColumns n row else WarnEmptyFind n)"

definition row_warnings :: "bool \<Rightarrow> nat \<Rightarrow> row list \<Rightarrow> message list" where
  "row_warnings has_header i rows =
     map (\<lambda>(j, row). skip_warning (row_number has_header j) row)
       (filter (\<lambda>(j, row). \<not> well_formed row) (enumerate i rows))"

text \<open>A text that neither starts nor ends with whitespace.\<close>

definition trimmed :: "pystr \<Rightarrow> bool" where
  "trimmed s \<longleftrightarrow> (s = [] \<or> (\<not> isspace (hd s) \<and> \<not> isspace (last s)))"

section \<open>Properties of the string operations\<close>

lemma py_strip_decomp:
  "s = takeWhile isspace s @ py_strip s @ rev (takeWhile isspace (rev (dropWhile isspace s)))"
proof -
  let ?t = "dropWhile isspace s"
  have "py_strip s @ rev (takeWhile isspace (rev ?t)) =
        rev (takeWhile isspace (rev ?t) @ dropWhile isspace (rev ?t))"
    by (simp only: py_strip_def rev_append)
  also have "\<dots> = ?t"
    by (simp only: takeWhile_dropWhile_id rev_rev_ident)
  finally have "?t = py_strip s @ rev (takeWhile isspace (rev ?t))"
    by (rule sym)
  moreover have "s = takeWhile isspace s @ ?t"
    by simp
  ultimately show ?thesis
    by simp
qed

lemma py_strip_trimmed: "trimmed (py_strip s)"
proof (cases "py_strip s = []")
  case True
  then show ?thesis by (simp add: trimmed_def)
next
  case False
  let ?t = "dropWhile isspace s"
  let ?u = "dropWhile isspace (rev ?t)"
  from False have u: "?u \<noteq> []"
    by (simp add: py_strip_def)
  then have "\<not> isspace (hd ?u)"
    by (rule hd_dropWhile)
  then have last: "\<not> isspace (last (py_strip s))"
    using u by (simp add: py_strip_def last_rev)
  have t: "?t = py_strip s @ rev (takeWhile isspace (rev ?t))"
    using py_strip_decomp [of s] by (metis same_append_eq takeWhile_dropWhile_id)
  from False t have "hd ?t = hd (py_strip s)"
    by (metis hd_append2)
  moreover from False t have "?t \<noteq> []"
    by (metis Nil_is_append_conv)
  then have "\<not> isspace (hd ?t)"
    by (rule hd_dropWhile)
  ultimately show ?thesis
    using last by (simp add: trimmed_def)
qed

section \<open>Properties of the loader\<close>

lemma process_row_eq:
  "process_row has_header i row (ps, out) =
     Inr (if well_formed row then (ps @ [stored_pair row], out)
          else (ps, out @ [skip_warning (row_number has_header i) row]))"
proof (cases row)
  case Nil
  then show ?thesis
    by (simp add: process_row_def skip_warning_def)
next
  case (Cons field0 tl0)
  show ?thesis
  proof (cases tl0)
    case Nil
    with Cons show ?thesis
      by (simp add: process_row_def skip_warning_def)
  next
    case (Cons field1 extra)
    with \<open>row = field0 # tl0\<close> show ?thesis
      by (simp add: process_row_def py_index_def stored_pair_def skip_warning_def Let_def)
  qed
qed

lemma read_rows_eq:
  "read_rows has_header i rows (ps, out) =
     Inr (ps @ map stored_pair (filter well_formed rows), out @ row_warnings has_header i rows)"
proof (induction rows arbitrary: i ps out)
  case Nil
  show ?case by (simp add: row_warnings_def)
next
  case (Cons row rows)
  show ?case
    by (simp add: process_row_eq Cons.IH row_warnings_def)
qed

lemma load_pairs_no_header:
  "load_pairs False rows =
     Inr (map stored_pair (filter well_formed rows), row_warnings False 0 rows)"
  by (simp add: load_pairs_def skip_header_def read_rows_eq)

lemma load_pairs_header_empty:
  "load_pairs True [] = Inr ([], [WarnEmptyAfterHeader])"
  by (simp add: load_pairs_def skip_header_def py_next_def)

lemma load_pairs_header:
  "load_pairs True (header # rows) =
     Inr (map stored_pair (filter well_formed rows), HeaderSkipped # row_warnings True 0 rows)"
  by (simp add: load_pairs_def skip_header_def py_next_def read_rows_eq)


lemma load_pairs_sources:
  assumes "load_pairs h rows = Inr (ps, out)"
  shows "ps = map stored_pair (filter well_formed (if h then tl rows else rows))"
proof (cases h)
  case False
  with assms show ?thesis by (simp add: load_pairs_no_header)
next
  case True
  with assms show ?thesis
    by (cases rows) (simp_all add: load_pairs_header_empty load_pairs_header)
qed

lemma well_formed_iff: "well_formed row \<longleftrightarrow> 2 \<le> length row \<and> py_strip (row ! 0) \<noteq> []"
proof (cases row)
  case Nil
  then show ?thesis by simp
next
  case (Cons f0 tl0)
  then show ?thesis by (cases tl0) simp_all
qed

lemma process_row_take2: "process_row h i (take 2 row) st = process_row h i row st"
proof (cases row)
  case Nil
  then show ?thesis by simp
next
  case (Cons f0 tl0)
  show ?thesis
  proof (cases tl0)
    case Nil
    with Cons show ?thesis by simp
  next
    case (Cons f1 extra)
    with \<open>row = f0 # tl0\<close> show ?thesis
      by (simp add: process_row_def py_index_def numeral_2_eq_2)
  qed
qed

lemma read_rows_take2: "read_rows h i (map (take 2) rows) st = read_rows h i rows st"
  by (induction rows arbitrary: i st)
    (simp_all add: process_row_take2 del: take_Suc_Cons split: sum.split)

lemma load_pairs_take2: "load_pairs h (map (take 2) rows) = load_pairs h rows"
proof (cases h)
  case False
  then show ?thesis
    by (simp add: load_pairs_def skip_header_def read_rows_take2)
next
  case True
  then show ?thesis
    by (cases rows) (simp_all add: load_pairs_def skip_header_def py_next_def read_rows_take2)
qed

section \<open>Properties of str.replace\<close>

lemma py_replace_scan_absent: "\<not> sublist old s \<Longrightarrow> py_replace_scan old new s = s"
  by (induction s) (auto simp: sublist_Cons_right)

lemma py_replace_absent: "\<not> sublist old s \<Longrightarrow> py_replace old new s = s"
  by (auto simp: py_replace_def py_replace_scan_absent)

lemma prefix_append_short:
  "prefix xs (ys @ zs) \<Longrightarrow> length xs \<le> length ys \<Longrightarrow> prefix xs ys"
  by (auto simp: prefix_append)

lemma py_replace_scan_at_occurrence:
  assumes "old \<noteq> []"
  shows "py_replace_scan old new (old @ rest) = new @ py_replace_scan old new rest"
proof -
  from assms obtain c old' where old: "old = c # old'"
    by (cases old) auto
  then have "py_replace_scan old new (c # old' @ rest) =
      new @ py_replace_scan old new (drop (length old) (c # old' @ rest))"
    by simp
  with old show ?thesis by simp
qed

lemma py_replace_scan_first:
  assumes "old \<noteq> []" and "\<not> sublist old (pre @ butlast old)"
  shows "py_replace_scan old new (pre @ old @ rest) = pre @ new @ py_replace_scan old new rest"
  using assms(2)
proof (induction pre)
  case Nil
  show ?case using assms(1) by (simp add: py_replace_scan_at_occurrence)
next
  case (Cons a pre)
  have "\<not> prefix old (a # pre @ old @ rest)"
  proof
    assume p: "prefix old (a # pre @ old @ rest)"
    have "a # pre @ old @ rest = (a # pre @ butlast old) @ (last old # rest)"
      using assms(1) by simp
    with p have "prefix old ((a # pre @ butlast old) @ (last old # rest))"
      by simp
    then have "prefix old (a # pre @ butlast old)"
      by (rule prefix_append_short) simp
    with Cons.prems show False
      by auto
  qed
  moreover from Cons.prems have "\<not> sublist old (pre @ butlast old)"
    by (simp add: sublist_Cons_right)
  ultimately show ?case
    using Cons.IH by simp
qed





section \<open>Properties of the transformer\<close>

lemma perform_replacements_content:
  "fst (perform_replacements s ps out) = foldl (\<lambda>content (f, r). py_replace f r content) s ps"
  by (induction s ps out rule: perform_replacements.induct) (simp_all add: Let_def)

lemma applyReplacements_foldl:
  "applyReplacements s ps = foldl (\<lambda>content (f, r). py_replace f r content) s ps"
  by (simp add: applyReplacements_def perform_replacements_content)


lemma applyReplacements_Cons:
  "applyReplacements s ((f, r) # ps) = applyReplacements (py_replace f r s) ps"
  by (simp add: applyReplacements_foldl)

lemma applyReplacements_append:
  "applyReplacements s (ps @ qs) = applyReplacements (applyReplacements s ps) qs"
  by (simp add: applyReplacements_foldl)




lemma py_strip_surrounding:
  "\<exists>a b. s = a @ py_strip s @ b \<and> list_all isspace a \<and> list_all isspace b"
proof (intro exI conjI)
  show "s = takeWhile isspace s @ py_strip s @ rev (takeWhile isspace (rev (dropWhile isspace s)))"
    by (rule py_strip_decomp)
  show "list_all isspace (takeWhile isspace s)"
    by (auto simp: list_all_iff dest: set_takeWhileD)
  show "list_all isspace (rev (takeWhile isspace (rev (dropWhile isspace s))))"
    by (auto simp: list_all_iff dest: set_takeWhileD)
qed

section \<open>The claims\<close>

text \<open>
  C1. For every source text, the transformer with an empty replacement list returns the
  source text unchanged: the function copies the input text to the output file.
\<close>

theorem empty_list_passthrough:
  "applyReplacements sourceText [] = sourceText
   \<and> transform_phase [] out (Inr sourceText) None =
       (True, Some sourceText, out @ [NoValidPairs, CopiedInput])
   \<and> written (find_replace_from_csv (Inr []) (Inr sourceText) None False) = Some sourceText"
  by (simp add: applyReplacements_def transform_phase_def find_replace_from_csv_def
      load_pairs_def skip_header_def written_def)

text \<open>
  C2. The pairs are applied in list order and each pass works on the text the previous
  pass produced, so a later pair matches text that an earlier pair introduced: the
  pairs (a, b), (b, c) turn the source a into c, not into b.
\<close>

theorem pairs_applied_in_sequence:
  "applyReplacements s ((f, r) # ps) = applyReplacements (py_replace f r s) ps
   \<and> applyReplacements s (ps @ qs) = applyReplacements (applyReplacements s ps) qs
   \<and> applyReplacements (str ''a'') [(str ''a'', str ''b''), (str ''b'', str ''c'')] = str ''c''
   \<and> applyReplacements (str ''a'') [(str ''a'', str ''b''), (str ''b'', str ''c'')] \<noteq> str ''b''"
proof (intro conjI)
  show "applyReplacements s ((f, r) # ps) = applyReplacements (py_replace f r s) ps"
    by (rule applyReplacements_Cons)
  show "applyReplacements s (ps @ qs) = applyReplacements (applyReplacements s ps) qs"
    by (rule applyReplacements_append)
  show "applyReplacements (str ''a'') [(str ''a'', str ''b''), (str ''b'', str ''c'')] = str ''c''"
    by (simp add: applyReplacements_def py_replace_def str_def Let_def)
  show "applyReplacements (str ''a'') [(str ''a'', str ''b''), (str ''b'', str ''c'')] \<noteq> str ''b''"
    by (simp add: applyReplacements_def py_replace_def str_def Let_def)
qed

text \<open>
  C3. One pass replaces every occurrence of its find text that a scan from the left
  meets, and resumes behind the occurrence it replaced: the text before the leftmost
  occurrence is kept, the occurrence becomes the replace text, and the pass goes on with
  the rest of the source, never with the text it has just written. A text without
  occurrence is unchanged. The pair (aa, a) turns aaaa into aa, not into a.
\<close>

theorem pass_replaces_non_overlapping_occurrences:
  "(old \<noteq> [] \<and> \<not> sublist old (pre @ butlast old) \<longrightarrow>
      py_replace old new (pre @ old @ rest) = pre @ new @ py_replace old new rest)
   \<and> (\<not> sublist old s \<longrightarrow> py_replace old new s = s)
   \<and> applyReplacements s [(old, new)] = py_replace old new s
   \<and> applyReplacements (str ''aaaa'') [(str ''aa'', str ''a'')] = str ''aa''
   \<and> applyReplacements (str ''aaaa'') [(str ''aa'', str ''a'')] \<noteq> str ''a''"
proof (intro conjI impI)
  assume "old \<noteq> [] \<and> \<not> sublist old (pre @ butlast old)"
  then show "py_replace old new (pre @ old @ rest) = pre @ new @ py_replace old new rest"
    by (simp add: py_replace_def py_replace_scan_first)
next
  assume "\<not> sublist old s"
  then show "py_replace old new s = s"
    by (rule py_replace_absent)
next
  show "applyReplacements s [(old, new)] = py_replace old new s"
    by (simp add: applyReplacements_foldl)
  show "applyReplacements (str ''aaaa'') [(str ''aa'', str ''a'')] = str ''aa''"
    by (simp add: applyReplacements_def py_replace_def str_def Let_def)
  show "applyReplacements (str ''aaaa'') [(str ''aa'', str ''a'')] \<noteq> str ''a''"
    by (simp add: applyReplacements_def py_replace_def str_def Let_def)
qed

theorem pass_replaces_non_overlapping_occurrences_witness:
  "str ''aa'' \<noteq> [] \<and> \<not> sublist (str ''aa'') (str ''b'' @ butlast (str ''aa''))
   \<and> py_replace (str ''aa'') (str ''a'') (str ''b'' @ str ''aa'' @ str ''a'') =
       str ''b'' @ str ''a'' @ py_replace (str ''aa'') (str ''a'') (str ''a'')
   \<and> \<not> sublist (str ''aa'') (str ''aba'')
   \<and> py_replace (str ''aa'') (str ''a'') (str ''aba'') = str ''aba''"
proof -
  have h1: "str ''aa'' \<noteq> [] \<and> \<not> sublist (str ''aa'') (str ''b'' @ butlast (str ''aa''))"
    by (simp add: str_def sublist_Cons_right)
  have h2: "\<not> sublist (str ''aa'') (str ''aba'')"
    by (simp add: str_def sublist_Cons_right)
  from pass_replaces_non_overlapping_occurrences
         [of "str ''aa''" "str ''b''" "str ''a''" "str ''a''" "str ''aba''"] h1 h2
  show ?thesis
    by blast
qed




text \<open>
  C5. A row with fewer than two fields, or with a find field that is empty after
  trimming, is skipped with a warning that names its position counted from 1 (the header
  row, when there is one, is row 1), and the load goes on: the result is never an
  exception, and it holds the pairs of the well-formed rows in their order. The rows
  [x], [find, repl] without header give the list [(find, repl)] and one warning, for
  row 1.
\<close>

theorem malformed_rows_skipped_with_warning:
  "loadReplacementPairs rows False =
     Inr (map stored_pair (filter well_formed rows),
          map (\<lambda>(i, row). skip_warning (i + 1) row)
            (filter (\<lambda>(i, row). \<not> well_formed row) (enumerate 0 rows)))
   \<and> loadReplacementPairs (header # rows) True =
     Inr (map stored_pair (filter well_formed rows),
          HeaderSkipped # map (\<lambda>(i, row). skip_warning (i + 2) row)
            (filter (\<lambda>(i, row). \<not> well_formed row) (enumerate 0 rows)))
   \<and> (well_formed row \<longleftrightarrow> 2 \<le> length row \<and> py_strip (row ! 0) \<noteq> [])
   \<and> is_warning (skip_warning n row) \<and> warned_row (skip_warning n row) = Some n
   \<and> loadReplacementPairs [[str ''x''], [str ''find'', str ''repl'']] False =
     Inr ([(str ''find'', str ''repl'')], [WarnInsufficientColumns 1 [str ''x'']])
   \<and> map warned_row (filter is_warning [WarnInsufficientColumns 1 [str ''x'']]) = [Some 1]"
proof (intro conjI)
  show "loadReplacementPairs rows False =
     Inr (map stored_pair (filter well_formed rows),
          map (\<lambda>(i, row). skip_warning (i + 1) row)
            (filter (\<lambda>(i, row). \<not> well_formed row) (enumerate 0 rows)))"
    by (simp add: loadReplacementPairs_def load_pairs_no_header row_warnings_def row_number_def)
  show "loadReplacementPairs (header # rows) True =
     Inr (map stored_pair (filter well_formed rows),
          HeaderSkipped # map (\<lambda>(i, row). skip_warning (i + 2) row)
            (filter (\<lambda>(i, row). \<not> well_formed row) (enumerate 0 rows)))"
    by (simp add: loadReplacementPairs_def load_pairs_header row_warnings_def row_number_def)
  show "well_formed row \<longleftrightarrow> 2 \<le> length row \<and> py_strip (row ! 0) \<noteq> []"
    by (rule well_formed_iff)
  show "is_warning (skip_warning n row)"
    by (simp add: skip_warning_def)
  show "warned_row (skip_warning n row) = Some n"
    by (simp add: skip_warning_def)
  show "loadReplacementPairs [[str ''x''], [str ''find'', str ''repl'']] False =
     Inr ([(str ''find'', str ''repl'')], [WarnInsufficientColumns 1 [str ''x'']])"
    by (simp add: loadReplacementPairs_def load_pairs_def skip_header_def process_row_def
        py_index_def row_number_def py_strip_def isspace_def str_def)
  show "map warned_row (filter is_warning [WarnInsufficientColumns 1 [str ''x'']]) = [Some 1]"
    by simp
qed

text \<open>
  C6. Every pair the loader stores comes from a row with at least two fields and is
  that row's first field and second field, each with its surrounding whitespace
  removed: the stored text neither starts nor ends with whitespace, and the field is
  the stored text between two runs of whitespace. The row [\<open>" foo "\<close>, \<open>" bar "\<close>]
  gives the pair (foo, bar).
\<close>

theorem accepted_fields_trimmed:
  "(loadReplacementPairs rows h = Inr (ps, out) \<and> (f, r) \<in> set ps \<longrightarrow>
      (\<exists>row \<in> set rows. 2 \<le> length row \<and> f = py_strip (row ! 0) \<and> r = py_strip (row ! 1)))
   \<and> (well_formed row \<longrightarrow>
        process_row h i row (ps0, out0) =
          Inr (ps0 @ [(py_strip (row ! 0), py_strip (row ! 1))], out0))
   \<and> trimmed (py_strip s)
   \<and> (\<exists>a b. s = a @ py_strip s @ b \<and> list_all isspace a \<and> list_all isspace b)
   \<and> loadReplacementPairs [[str '' foo '', str '' bar '']] False =
       Inr ([(str ''foo'', str ''bar'')], [])"
proof (intro conjI impI)
  assume a: "loadReplacementPairs rows h = Inr (ps, out) \<and> (f, r) \<in> set ps"
  then have "ps = map stored_pair (filter well_formed (if h then tl rows else rows))"
    by (simp add: loadReplacementPairs_def load_pairs_sources)
  with a obtain row where row: "row \<in> set (if h then tl rows else rows)" "well_formed row"
    and fr: "(f, r) = stored_pair row"
    by auto
  from row(1) have "row \<in> set rows"
    by (cases rows) (auto split: if_splits)
  moreover from row(2) have "2 \<le> length row"
    by (simp add: well_formed_iff)
  moreover from fr have "f = py_strip (row ! 0)" and "r = py_strip (row ! 1)"
    by (simp_all add: stored_pair_def)
  ultimately
  show "\<exists>row \<in> set rows. 2 \<le> length row \<and> f = py_strip (row ! 0) \<and> r = py_strip (row ! 1)"
    by blast
next
  assume "well_formed row"
  then show "process_row h i row (ps0, out0) =
      Inr (ps0 @ [(py_strip (row ! 0), py_strip (row ! 1))], out0)"
    by (simp add: process_row_eq stored_pair_def)
next
  show "trimmed (py_strip s)"
    by (rule py_strip_trimmed)
  show "\<exists>a b. s = a @ py_strip s @ b \<and> list_all isspace a \<and> list_all isspace b"
    by (rule py_strip_surrounding)
  show "loadReplacementPairs [[str '' foo '', str '' bar '']] False =
       Inr ([(str ''foo'', str ''bar'')], [])"
    by (simp add: loadReplacementPairs_def load_pairs_def skip_header_def process_row_def
        py_index_def row_number_def py_strip_def isspace_def str_def)
qed

theorem accepted_fields_trimmed_witness:
  "loadReplacementPairs [[str '' foo '', str '' bar '']] False =
       Inr ([(str ''foo'', str ''bar'')], [])
   \<and> (str ''foo'', str ''bar'') \<in> set [(str ''foo'', str ''bar'')]
   \<and> (\<exists>row. row \<in> set [[str '' foo '', str '' bar '']] \<and> 2 \<le> length row
         \<and> str ''foo'' = py_strip (row ! 0) \<and> str ''bar'' = py_strip (row ! 1))
   \<and> well_formed [str '' foo '', str '' bar '']
   \<and> process_row False 0 [str '' foo '', str '' bar ''] ([], []) =
       Inr ([] @ [(py_strip ([str '' foo '', str '' bar ''] ! 0),
                   py_strip ([str '' foo '', str '' bar ''] ! 1))], [])"
proof -
  have w: "well_formed [str '' foo '', str '' bar '']"
    by (simp add: py_strip_def isspace_def str_def)
  have h: "loadReplacementPairs [[str '' foo '', str '' bar '']] False =
       Inr ([(str ''foo'', str ''bar'')], [])"
    by (simp add: loadReplacementPairs_def load_pairs_def skip_header_def process_row_def
        py_index_def row_number_def py_strip_def isspace_def str_def)
  have m: "(str ''foo'', str ''bar'') \<in> set [(str ''foo'', str ''bar'')]"
    by simp
  from accepted_fields_trimmed
         [where rows = "[[str '' foo '', str '' bar '']]" and h = False
            and ps = "[(str ''foo'', str ''bar'')]" and out = "[]"
            and f = "str ''foo''" and r = "str ''bar''"
            and row = "[str '' foo '', str '' bar '']" and i = 0 and ?ps0.0 = "[]"
            and ?out0.0 = "[]"] h m w
  show ?thesis
    by blast
qed

text \<open>
  C7, as stated: with skipHeader the rows [h1, h2] give an empty list and a warning. They
  give an empty list and the notice that the header was skipped, which is no warning.
\<close>

theorem header_only_gives_no_warning:
  "loadReplacementPairs [[str ''h1'', str ''h2'']] True = Inr ([], [HeaderSkipped])
   \<and> filter is_warning [HeaderSkipped] = []"
  by (simp add: loadReplacementPairs_def load_pairs_def skip_header_def py_next_def)

text \<open>
  C7, amended: when skipHeader is true the loader discards the first row and loads the
  rows behind it. If there is no row to discard, it returns an empty list together with
  the warning that the file is empty, not an error. If the header is the only row, it
  returns an empty list together with the notice that the header was skipped, and no
  warning and no error; the function then reports that there are no valid pairs and
  copies the input text.
\<close>

theorem header_skip_on_short_input:
  "loadReplacementPairs [] True = Inr ([], [WarnEmptyAfterHeader])
   \<and> is_warning WarnEmptyAfterHeader
   \<and> loadReplacementPairs [header] True = Inr ([], [HeaderSkipped])
   \<and> filter is_warning [HeaderSkipped] = []
   \<and> loadReplacementPairs (header # rows) True =
       Inr (map stored_pair (filter well_formed rows), HeaderSkipped # row_warnings True 0 rows)
   \<and> find_replace_from_csv (Inr [header]) (Inr s) None True =
       (True, Some s, [HeaderSkipped, NoValidPairs, CopiedInput])"
  by (simp add: loadReplacementPairs_def load_pairs_header_empty load_pairs_header
      row_warnings_def find_replace_from_csv_def transform_phase_def)




text \<open>
  C10. Of a row with more than two fields the loader uses the first field as find text
  and the second as replace text and nothing else: the row is treated as the row of its
  first two fields, and is neither skipped nor warned about on account of the others.
\<close>

theorem extra_fields_ignored:
  "process_row h i (field0 # field1 # extra) (ps, out) =
     (if py_strip field0 = [] then Inr (ps, out @ [WarnEmptyFind (row_number h i)])
      else Inr (ps @ [(py_strip field0, py_strip field1)], out))
   \<and> process_row h i (field0 # field1 # extra) st = process_row h i [field0, field1] st
   \<and> loadReplacementPairs rows h = loadReplacementPairs (map (take 2) rows) h"
proof (intro conjI)
  show "process_row h i (field0 # field1 # extra) (ps, out) =
     (if py_strip field0 = [] then Inr (ps, out @ [WarnEmptyFind (row_number h i)])
      else Inr (ps @ [(py_strip field0, py_strip field1)], out))"
    by (simp add: process_row_def py_index_def Let_def)
  show "process_row h i (field0 # field1 # extra) st = process_row h i [field0, field1] st"
    using process_row_take2 [of h i "field0 # field1 # extra" st]
    by (simp add: numeral_2_eq_2)
  show "loadReplacementPairs rows h = loadReplacementPairs (map (take 2) rows) h"
    by (simp add: loadReplacementPairs_def load_pairs_take2)
qed

end
